theory Spec2Isabelle
  imports Main "HOL-Library.Word"
begin

section \<open>Document processing utilities: the C++ classes and the C functions\<close>

text \<open>
  The repository holds two independent implementations of the same utilities:
  \<^verbatim>\<open>test-cpp.cpp\<close> (namespace \<^verbatim>\<open>knowledge\<close>: \<^verbatim>\<open>Document\<close>, \<^verbatim>\<open>TextParser\<close>,
  \<^verbatim>\<open>TextChunker\<close>) and \<^verbatim>\<open>test-c.c\<close> (\<^verbatim>\<open>document_create\<close>, \<^verbatim>\<open>chunk_text\<close>).
  Both are embedded below, function by function.

  A \<^verbatim>\<open>std::string\<close> is a \<^typ>\<open>string\<close> (a list of bytes). A C string is the list of the
  bytes before its terminating NUL. An \<^verbatim>\<open>int\<close> that is converted or compared with a
  \<^verbatim>\<open>size_t\<close> is a 32-bit word read in two's complement, a \<^verbatim>\<open>size_t\<close> a 64-bit word (LP64).
\<close>

type_synonym int32 = "32 word"
type_synonym size_t = "64 word"

text \<open>
  \<^verbatim>\<open>std::invalid_argument\<close> is the only exception the C++ file throws. The second error
  kind is named by the specification only (parser dispatch).
\<close>

datatype error = InvalidArgument | UnsupportedMediaType

subsection \<open>C++: \<^verbatim>\<open>Document\<close>\<close>

text \<open>
  The private members \<^verbatim>\<open>content_\<close>, \<^verbatim>\<open>source_\<close> and \<^verbatim>\<open>wordCount_\<close>. The word count
  is a 32-bit \<^verbatim>\<open>int\<close>, read with \<open>sint\<close>.
\<close>

record Document =
  content' :: string
  source' :: string
  wordCount' :: int32

text \<open>
  \<^verbatim>\<open>stream >> word\<close> on a \<^verbatim>\<open>std::istringstream\<close>: the sentry skips leading whitespace,
  which is \<^verbatim>\<open>std::isspace\<close> of the classic locale (space, \<^verbatim>\<open>\t \n \v \f \r\<close>); when the
  end is reached there the extraction fails. Otherwise the characters up to the next
  whitespace or the end are stored in \<^verbatim>\<open>word\<close>. The stream is modelled by the characters
  not yet read.
\<close>

definition isspace :: "char \<Rightarrow> bool" where
  "isspace c \<longleftrightarrow>
     c = CHR '' '' \<or> c = CHR 0x09 \<or> c = CHR 0x0A \<or> c = CHR 0x0B \<or> c = CHR 0x0C \<or> c = CHR 0x0D"

definition extract_word :: "string \<Rightarrow> (string \<times> string) option" where
  "extract_word stream =
     (let s = dropWhile isspace stream in
      if s = [] then None
      else Some (takeWhile (\<lambda>c. \<not> isspace c) s, dropWhile (\<lambda>c. \<not> isspace c) s))"

lemma extract_word_shorter:
  assumes "extract_word stream = Some (w, rest)"
  shows "length rest < length stream"
proof -
  define s where "s = dropWhile isspace stream"
  from assms have ne: "s \<noteq> []" and rest: "rest = dropWhile (\<lambda>c. \<not> isspace c) s"
    by (auto simp: extract_word_def s_def Let_def split: if_splits)
  from ne have "\<not> isspace (hd s)"
    unfolding s_def by (rule hd_dropWhile)
  with ne have "rest = dropWhile (\<lambda>c. \<not> isspace c) (tl s)"
    unfolding rest by (cases s) auto
  then have "length rest \<le> length (tl s)"
    by (simp only: length_dropWhile_le)
  also from ne have "\<dots> < length s" by (cases s) auto
  also have "\<dots> \<le> length stream"
    unfolding s_def by (rule length_dropWhile_le)
  finally show ?thesis .
qed

text \<open>
  \<^verbatim>\<open>while (stream >> word) count++;\<close> with \<^verbatim>\<open>int count\<close>. The increment is the
  addition of 32-bit words; it leaves the range of \<^verbatim>\<open>int\<close> (undefined in C++, a
  wrap-around here) only from \<open>2^31\<close> words on, which a content shorter than \<open>2^31\<close>
  bytes does not hold.
\<close>

function countWords_loop :: "string \<Rightarrow> int32 \<Rightarrow> int32" where
  "countWords_loop stream count =
     (case extract_word stream of
        None \<Rightarrow> count
      | Some (word, stream') \<Rightarrow> countWords_loop stream' (count + 1))"
  by pat_completeness auto
termination
  by (relation "measure (\<lambda>(stream, count). length stream)")
     (auto dest: extract_word_shorter)

declare countWords_loop.simps [simp del]

definition countWords :: "string \<Rightarrow> int32" where
  "countWords text = countWords_loop text 0"

text \<open>The constructor: throws when \<^verbatim>\<open>content.empty()\<close>, otherwise counts the words.\<close>

definition Document_new :: "string \<Rightarrow> string \<Rightarrow> error + Document" where
  "Document_new content source =
     (if content = [] then Inl InvalidArgument
      else Inr \<lparr>content' = content, source' = source, wordCount' = countWords content\<rparr>)"

subsection \<open>C++: \<^verbatim>\<open>DocumentParser\<close> and \<^verbatim>\<open>TextParser\<close>\<close>

text \<open>The abstract class is the record of its two virtual member functions.\<close>

record DocumentParser =
  supports :: "string \<Rightarrow> bool"
  parse :: "string \<Rightarrow> string \<Rightarrow> error + Document"

definition TextParser :: DocumentParser where
  "TextParser =
     \<lparr>supports = (\<lambda>mimeType. mimeType = ''text/plain''),
      parse = (\<lambda>buffer filename. Document_new buffer filename)\<rparr>"

subsection \<open>C++: \<^verbatim>\<open>TextChunker\<close>\<close>

record TextChunker =
  chunkSize' :: int32

text \<open>The constructor stores its argument; it has no check and no \<^verbatim>\<open>throw\<close>.\<close>

definition TextChunker_new :: "int32 \<Rightarrow> error + TextChunker" where
  "TextChunker_new chunkSize = Inr \<lparr>chunkSize' = chunkSize\<rparr>"

text \<open>
  \<^verbatim>\<open>std::getline(stream, sentence, delim)\<close>: fails when nothing is left to read; otherwise
  stores the characters before the first delimiter (or before the end) and consumes the
  delimiter.
\<close>

definition getline :: "string \<Rightarrow> char \<Rightarrow> (string \<times> string) option" where
  "getline stream delim =
     (if stream = [] then None
      else Some (takeWhile (\<lambda>c. c \<noteq> delim) stream,
                 drop 1 (dropWhile (\<lambda>c. c \<noteq> delim) stream)))"

lemma getline_shorter:
  assumes "getline stream delim = Some (sentence, rest)"
  shows "length rest < length stream"
proof -
  from assms have ne: "stream \<noteq> []"
    and rest: "rest = drop 1 (dropWhile (\<lambda>c. c \<noteq> delim) stream)"
    by (auto simp: getline_def split: if_splits)
  show ?thesis
  proof (cases "dropWhile (\<lambda>c. c \<noteq> delim) stream")
    case Nil
    then have "rest = []" by (simp only: rest drop_Nil)
    with ne show ?thesis by simp
  next
    case (Cons d ds)
    have "length (dropWhile (\<lambda>c. c \<noteq> delim) stream) \<le> length stream"
      by (rule length_dropWhile_le)
    with Cons show ?thesis by (simp add: rest)
  qed
qed

text \<open>The local variables of \<^verbatim>\<open>chunk\<close> that the loop updates.\<close>

record chunk_state =
  chunks :: "string list"
  currentChunk :: string

text \<open>
  The body of the \<^verbatim>\<open>while\<close> loop. In
  \<^verbatim>\<open>currentChunk.length() + sentence.length() > chunkSize_\<close> the sum is a \<^verbatim>\<open>size_t\<close> and
  the \<^verbatim>\<open>int\<close> is converted to \<^verbatim>\<open>size_t\<close> (sign extension) before the unsigned comparison.
\<close>

definition chunk_body :: "TextChunker \<Rightarrow> string \<Rightarrow> chunk_state \<Rightarrow> chunk_state" where
  "chunk_body this sentence st =
     (if sentence \<noteq> [] then
        let st1 =
              (if (scast (chunkSize' this) :: size_t)
                    < of_nat (length (currentChunk st)) + of_nat (length sentence)
               then (if currentChunk st \<noteq> []
                     then st\<lparr>chunks := chunks st @ [currentChunk st], currentChunk := []\<rparr>
                     else st)
               else st);
            st2 =
              (if currentChunk st1 \<noteq> []
               then st1\<lparr>currentChunk := currentChunk st1 @ ''. ''\<rparr>
               else st1)
        in st2\<lparr>currentChunk := currentChunk st2 @ sentence\<rparr>
      else st)"

function chunk_loop :: "TextChunker \<Rightarrow> string \<Rightarrow> chunk_state \<Rightarrow> chunk_state" where
  "chunk_loop this stream st =
     (case getline stream (CHR ''.'') of
        None \<Rightarrow> st
      | Some (sentence, stream') \<Rightarrow> chunk_loop this stream' (chunk_body this sentence st))"
  by pat_completeness auto
termination
  by (relation "measure (\<lambda>(this, stream, st). length stream)")
     (auto dest: getline_shorter)

declare chunk_loop.simps [simp del]

definition chunk :: "TextChunker \<Rightarrow> string \<Rightarrow> string list" where
  "chunk this text =
     (let st = chunk_loop this text \<lparr>chunks = [], currentChunk = []\<rparr>
      in if currentChunk st \<noteq> [] then chunks st @ [currentChunk st] else chunks st)"

subsection \<open>C: \<^verbatim>\<open>document_create\<close>\<close>

record Document_c =
  content :: string
  source :: string
  word_count :: int32

text \<open>
  The \<^verbatim>\<open>for\<close> loop over \<^verbatim>\<open>*p\<close>, with the local \<^verbatim>\<open>in_word\<close> and the field
  \<^verbatim>\<open>doc->word_count\<close> (an \<^verbatim>\<open>int\<close>, incremented as a 32-bit word) as state.
\<close>

fun word_count_loop :: "string \<Rightarrow> bool \<Rightarrow> int32 \<Rightarrow> int32" where
  "word_count_loop [] in_word wc = wc"
| "word_count_loop (c # p) in_word wc =
     (if c = CHR '' '' \<or> c = CHR 0x0A \<or> c = CHR 0x09 then word_count_loop p False wc
      else if \<not> in_word then word_count_loop p True (wc + 1)
      else word_count_loop p in_word wc)"

text \<open>
  \<^verbatim>\<open>content\<close> may be the null pointer (\<open>None\<close>); the result is \<^verbatim>\<open>NULL\<close> (\<open>None\<close>) for
  a null or empty content. \<^verbatim>\<open>malloc\<close> is taken to succeed.
\<close>

definition document_create :: "string option \<Rightarrow> string \<Rightarrow> Document_c option" where
  "document_create content_ptr src =
     (case content_ptr of
        None \<Rightarrow> None
      | Some c \<Rightarrow>
          if length c = 0 then None
          else Some \<lparr>content = c, source = src, word_count = word_count_loop c False 0\<rparr>)"

subsection \<open>C: \<^verbatim>\<open>chunk_text\<close>\<close>

text \<open>\<^verbatim>\<open>start[i]\<close> for \<open>i\<close> up to \<^verbatim>\<open>strlen(start)\<close>, where the terminating NUL is read.\<close>

definition c_at :: "string \<Rightarrow> nat \<Rightarrow> char" where
  "c_at start i = (if i < length start then start ! i else CHR 0x00)"

text \<open>\<^verbatim>\<open>while (len > 0 && start[len] != '.' && start[len] != '\n') len--;\<close>\<close>

function find_boundary :: "string \<Rightarrow> nat \<Rightarrow> nat" where
  "find_boundary start len =
     (if len > 0 \<and> c_at start len \<noteq> CHR ''.'' \<and> c_at start len \<noteq> CHR 0x0A
      then find_boundary start (len - 1) else len)"
  by pat_completeness auto
termination
  by (relation "measure (\<lambda>(start, len). len)") auto

declare find_boundary.simps [simp del]

text \<open>
  The length of the next chunk. \<^verbatim>\<open>strlen(start) < chunk_size\<close> compares as \<^verbatim>\<open>size_t\<close>.
  In the other branch \<^verbatim>\<open>len\<close> starts at \<^verbatim>\<open>chunk_size\<close>, which is not negative there for
  any text shorter than \<open>2^31\<close> bytes (a negative \<^verbatim>\<open>int\<close> is at least \<open>2^64 - 2^31\<close> as a
  \<^verbatim>\<open>size_t\<close>).
\<close>

definition chunk_len :: "int32 \<Rightarrow> string \<Rightarrow> nat" where
  "chunk_len chunk_size start =
     (if (of_nat (length start) :: size_t) < scast chunk_size then length start
      else
        let len = find_boundary start (nat (sint chunk_size))
        in if len = 0 then nat (sint chunk_size) else len + 1)"

text \<open>
  The outer \<^verbatim>\<open>while (*start)\<close> loop, with \<^verbatim>\<open>start\<close> and the array \<^verbatim>\<open>chunks\<close> (of
  \<^verbatim>\<open>*chunk_count\<close> entries) as state. The array was allocated for \<^verbatim>\<open>estimated_chunks\<close>
  pointers: a write past its end is undefined behaviour, \<open>None\<close>. A run of the loop
  that never ends is \<open>None\<close> as well.
\<close>

partial_function (option) chunk_text_loop ::
  "int32 \<Rightarrow> nat \<Rightarrow> string \<Rightarrow> string list \<Rightarrow> string list option" where
  "chunk_text_loop chunk_size estimated_chunks start chunk_array =
     (if start = [] then Some chunk_array
      else if estimated_chunks \<le> length chunk_array then None
      else
        let len = chunk_len chunk_size start
        in chunk_text_loop chunk_size estimated_chunks (drop len start)
             (chunk_array @ [take len start]))"

text \<open>
  \<^verbatim>\<open>chunk_text\<close> returns the chunks (\<^verbatim>\<open>*chunk_count\<close> is their number). The division
  \<^verbatim>\<open>text_len / chunk_size\<close> is a \<^verbatim>\<open>size_t\<close> division: undefined for \<^verbatim>\<open>chunk_size == 0\<close>.
  The model covers texts shorter than \<open>2^31 - 1\<close> bytes, for which every length and
  \<^verbatim>\<open>text_len / chunk_size + 1\<close> fit the \<^verbatim>\<open>int\<close> variables \<^verbatim>\<open>len\<close> and
  \<^verbatim>\<open>estimated_chunks\<close>; a longer text is \<open>None\<close>. \<^verbatim>\<open>malloc\<close> and \<^verbatim>\<open>strndup\<close> are taken
  to succeed.
\<close>

definition chunk_text :: "string \<Rightarrow> int32 \<Rightarrow> string list option" where
  "chunk_text text chunk_size =
     (if chunk_size = 0 then None
      else if (2 ^ 31 - 1 :: int) \<le> int (length text) then None
      else
        let text_len = (of_nat (length text) :: size_t);
            estimated_chunks = unat (text_len div scast chunk_size + 1)
        in chunk_text_loop chunk_size estimated_chunks text [])"

subsection \<open>Parser dispatch\<close>

text \<open>
  Modelled from the spec: the parser registry and its \<^verbatim>\<open>dispatch\<close> operation, which the
  source files do not contain (they define the parser classes only). The registry is
  the list of registered parsers in registration order; dispatch is a linear scan that
  returns the first parser whose \<^verbatim>\<open>supports(mimeType)\<close> is true and fails with
  \<^verbatim>\<open>UnsupportedMediaType\<close> when no parser matches.
\<close>

fun dispatch :: "DocumentParser list \<Rightarrow> string \<Rightarrow> error + DocumentParser" where
  "dispatch [] mimeType = Inl UnsupportedMediaType"
| "dispatch (p # registry) mimeType =
     (if supports p mimeType then Inr p else dispatch registry mimeType)"

subsection \<open>Notions of the specification\<close>

text \<open>
  The maximal runs of non-whitespace characters of a string, for a given set of
  whitespace characters: a run begins at index \<open>i\<close> when the character at \<open>i\<close> is not
  whitespace and \<open>i\<close> is the first index or the character before it is whitespace.
  Every maximal run has exactly one beginning.
\<close>

definition run_starts :: "(char \<Rightarrow> bool) \<Rightarrow> string \<Rightarrow> nat list" where
  "run_starts ws s =
     filter (\<lambda>i. \<not> ws (s ! i) \<and> (i = 0 \<or> ws (s ! (i - 1)))) [0..<length s]"

definition count_runs :: "(char \<Rightarrow> bool) \<Rightarrow> string \<Rightarrow> int" where
  "count_runs ws s = int (length (run_starts ws s))"

text \<open>The whitespace of the specification: space, tab and newline, nothing else.\<close>

definition space_tab_newline :: "char \<Rightarrow> bool" where
  "space_tab_newline c \<longleftrightarrow> c = CHR '' '' \<or> c = CHR 0x09 \<or> c = CHR 0x0A"

text \<open>
  A text that consists of \<open>.\<close>-delimited fragments with nothing after the last \<open>.\<close>:
  each fragment followed by its delimiter, in order.
\<close>

definition delimited :: "string list \<Rightarrow> string" where
  "delimited fragments = concat (map (\<lambda>f. f @ ''.'') fragments)"

text \<open>
  Undoing the chunker's joins. Inside a chunk every \<open>.\<close> comes from an inserted
  separator \<^verbatim>\<open>". "\<close> (fragments hold no \<open>.\<close>), so removing the separator and restoring
  the delimiter replaces each \<^verbatim>\<open>". "\<close> by \<^verbatim>\<open>"."\<close>; the delimiter that ended the last
  fragment of the chunk is restored at its end.
\<close>

fun unseparate :: "string \<Rightarrow> string" where
  "unseparate [] = []"
| "unseparate [c] = [c]"
| "unseparate (c # d # cs) =
     (if c = CHR ''.'' \<and> d = CHR '' '' then CHR ''.'' # unseparate cs
      else c # unseparate (d # cs))"

definition reconstruct :: "string list \<Rightarrow> string" where
  "reconstruct chunk_list = concat (map (\<lambda>c. unseparate c @ ''.'') chunk_list)"

text \<open>
  A text cut by length: pieces of \<open>n\<close> characters, the last one possibly shorter.
\<close>

function cut_by_length :: "nat \<Rightarrow> string \<Rightarrow> string list" where
  "cut_by_length n xs =
     (if xs = [] \<or> n = 0 then [] else take n xs # cut_by_length n (drop n xs))"
  by pat_completeness auto
termination
  by (relation "measure (\<lambda>(n, xs). length xs)") auto

declare cut_by_length.simps [simp del]

subsection \<open>Auxiliary functions for the proofs\<close>

text \<open>
  The run beginnings counted along the list: \<open>prev\<close> tells whether the position before
  the first character counts as whitespace.
\<close>

fun runs_from :: "(char \<Rightarrow> bool) \<Rightarrow> bool \<Rightarrow> string \<Rightarrow> nat" where
  "runs_from ws prev [] = 0"
| "runs_from ws prev (c # s) =
     (if \<not> ws c \<and> prev then 1 else 0) + runs_from ws (ws c) s"

text \<open>
  What a state of the chunking loop reconstructs to: the finished chunks, then the
  accumulator as the chunk it will become.
\<close>

definition restored :: "chunk_state \<Rightarrow> string" where
  "restored st =
     reconstruct (chunks st)
       @ (if currentChunk st = [] then [] else unseparate (currentChunk st) @ ''.'')"

section \<open>Conversions between \<^verbatim>\<open>int\<close> and \<^verbatim>\<open>size_t\<close>\<close>

lemma sint_int32_bound: "sint (k :: int32) < 2 ^ 31"
  using sint_lt [of k] by simp

lemma unat_size_t_of_nat:
  assumes "n < 2 ^ 31"
  shows "unat (of_nat n :: size_t) = n"
proof -
  from assms have "n < 2 ^ 64" by (rule less_trans) simp
  then show ?thesis by (simp add: unat_of_nat)
qed

text \<open>A positive \<^verbatim>\<open>int\<close> keeps its value when it is converted to \<^verbatim>\<open>size_t\<close>.\<close>

lemma unat_scast_positive:
  fixes k :: int32
  assumes "0 <s k"
  shows "unat (scast k :: size_t) = nat (sint k)"
proof -
  from assms have pos: "0 < sint k" by (simp add: word_sless_alt)
  have "sint k < 2 ^ 31" by (rule sint_int32_bound)
  then have "sint k < 2 ^ 64" by (rule less_trans) simp
  with pos have tb: "take_bit 64 (sint k) = sint k"
    by (simp only: take_bit_int_eq_self_iff) simp
  have "uint (word_of_int (sint k) :: size_t) = take_bit LENGTH(64) (sint k)"
    by (rule uint_word_of_int_eq)
  also have "\<dots> = sint k" using tb by simp
  finally show ?thesis
    by (simp only: scast_eq unat_eq_nat_uint)
qed

section \<open>The chunking loop, one iteration at a time\<close>

lemma chunk_loop_Nil: "chunk_loop this [] st = st"
  by (simp add: chunk_loop.simps [of this "[]"] getline_def)

lemma chunk_loop_step:
  assumes "stream \<noteq> []"
  shows "chunk_loop this stream st =
         chunk_loop this (drop 1 (dropWhile (\<lambda>c. c \<noteq> CHR ''.'') stream))
           (chunk_body this (takeWhile (\<lambda>c. c \<noteq> CHR ''.'') stream) st)"
  using assms by (simp add: chunk_loop.simps [of this stream] getline_def)

lemma chunk_body_empty: "chunk_body this [] st = st"
  by (simp add: chunk_body_def)

text \<open>The first sentence stored: with an empty accumulator nothing is flushed or joined.\<close>

lemma chunk_body_first:
  assumes "sentence \<noteq> []" and "currentChunk st = []"
  shows "chunk_body this sentence st = st\<lparr>currentChunk := sentence\<rparr>"
  using assms by (simp add: chunk_body_def Let_def)

text \<open>
  The texts of the form \<open>delimited fragments\<close> are exactly the texts with nothing after
  their last \<open>.\<close>: the empty text and the texts that end in a \<open>.\<close>.
\<close>

lemma delimited_cover:
  assumes "text = [] \<or> last text = CHR ''.''"
  shows "\<exists>fragments. (\<forall>f \<in> set fragments. CHR ''.'' \<notin> set f) \<and> text = delimited fragments"
  using assms
proof (induction "text" rule: length_induct)
  case (1 xs)
  show ?case
  proof (cases "xs = []")
    case True
    then have "(\<forall>f \<in> set []. CHR ''.'' \<notin> set f) \<and> xs = delimited []"
      by (simp add: delimited_def)
    then show ?thesis by blast
  next
    case False
    with "1.prems" have lst: "last xs = CHR ''.''" by simp
    define f where "f = takeWhile (\<lambda>c. c \<noteq> CHR ''.'') xs"
    define r where "r = dropWhile (\<lambda>c. c \<noteq> CHR ''.'') xs"
    have split: "xs = f @ r"
      by (simp add: f_def r_def)
    have "CHR ''.'' \<in> set xs"
      using False lst last_in_set by metis
    then have ne: "r \<noteq> []"
      by (auto simp: r_def)
    then have "hd r = CHR ''.''"
      using hd_dropWhile [of "\<lambda>c. c \<noteq> CHR ''.''" xs] by (simp add: r_def)
    with ne obtain r' where r: "r = CHR ''.'' # r'"
      by (cases r) simp_all
    have nof: "CHR ''.'' \<notin> set f"
      by (auto simp: f_def dest: set_takeWhileD)
    have xs: "xs = f @ ''.'' @ r'"
      by (simp add: split r)
    have "length xs = length f + 1 + length r'"
      by (simp add: xs)
    then have shorter: "length r' < length xs"
      by simp
    have "last xs = last (CHR ''.'' # r')"
      by (simp add: xs)
    with lst have "r' = [] \<or> last r' = CHR ''.''"
      by (cases "r' = []") simp_all
    with shorter obtain fragments where
      fr: "\<forall>f \<in> set fragments. CHR ''.'' \<notin> set f" "r' = delimited fragments"
      using "1.IH" by blast
    have "(\<forall>g \<in> set (f # fragments). CHR ''.'' \<notin> set g) \<and> xs = delimited (f # fragments)"
      using fr nof by (simp add: xs delimited_def)
    then show ?thesis by blast
  qed
qed

lemma delimited_ends:
  "delimited fragments = [] \<or> last (delimited fragments) = CHR ''.''"
  by (induction fragments) (auto simp: delimited_def)

text \<open>Reading one delimited fragment from the stream.\<close>

lemma chunk_loop_fragment:
  assumes "CHR ''.'' \<notin> set f"
  shows "chunk_loop this (f @ ''.'' @ rest) st = chunk_loop this rest (chunk_body this f st)"
proof -
  from assms have tw: "takeWhile (\<lambda>c. c \<noteq> CHR ''.'') (f @ ''.'' @ rest) = f"
    by (subst takeWhile_append2) auto
  from assms have dw: "dropWhile (\<lambda>c. c \<noteq> CHR ''.'') (f @ ''.'' @ rest) = ''.'' @ rest"
    by (subst dropWhile_append2) auto
  have "chunk_loop this (f @ ''.'' @ rest) st =
      chunk_loop this (drop 1 (dropWhile (\<lambda>c. c \<noteq> CHR ''.'') (f @ ''.'' @ rest)))
        (chunk_body this (takeWhile (\<lambda>c. c \<noteq> CHR ''.'') (f @ ''.'' @ rest)) st)"
    by (rule chunk_loop_step) simp
  then show ?thesis
    unfolding tw dw by simp
qed

subsection \<open>No chunk is empty\<close>

lemma chunk_body_chunks_nonempty:
  assumes "[] \<notin> set (chunks st)"
  shows "[] \<notin> set (chunks (chunk_body this sentence st))"
  using assms by (auto simp: chunk_body_def Let_def)

lemma chunk_loop_chunks_nonempty:
  "[] \<notin> set (chunks st) \<Longrightarrow> [] \<notin> set (chunks (chunk_loop this stream st))"
proof (induction this stream st rule: chunk_loop.induct)
  case (1 this stream st)
  show ?case
  proof (cases "getline stream (CHR ''.'')")
    case None
    with "1.prems" show ?thesis
      by (simp add: chunk_loop.simps [of this stream])
  next
    case (Some a)
    obtain sentence stream' where a: "a = (sentence, stream')"
      by (cases a)
    have b: "[] \<notin> set (chunks (chunk_body this sentence st))"
      using "1.prems" by (rule chunk_body_chunks_nonempty)
    have "[] \<notin> set (chunks (chunk_loop this stream' (chunk_body this sentence st)))"
      by (rule "1.IH" [OF Some a [symmetric] b])
    with Some a show ?thesis
      by (simp add: chunk_loop.simps [of this stream])
  qed
qed

subsection \<open>Undoing the joins\<close>

lemma unseparate_no_stop:
  "CHR ''.'' \<notin> set s \<Longrightarrow> unseparate s = s"
  by (induction s rule: unseparate.induct) auto

lemma unseparate_append:
  "xs = [] \<or> last xs \<noteq> CHR ''.'' \<Longrightarrow> unseparate (xs @ ys) = unseparate xs @ unseparate ys"
proof (induction xs rule: unseparate.induct)
  case 1
  then show ?case by simp
next
  case (2 c)
  then show ?case by (cases ys) auto
next
  case (3 c d cs)
  then show ?case by (auto split: if_splits)
qed

lemma reconstruct_snoc:
  "reconstruct (cl @ [c]) = reconstruct cl @ unseparate c @ ''.''"
  by (simp add: reconstruct_def)

text \<open>
  One iteration on a non-empty fragment without \<open>.\<close>: the fragment and its delimiter
  are added to what the state reconstructs to, whether the accumulator is flushed or
  not; the accumulator never ends in a \<open>.\<close>.
\<close>

lemma chunk_body_restored:
  assumes f: "f \<noteq> []" "CHR ''.'' \<notin> set f"
    and inv: "currentChunk st = [] \<or> last (currentChunk st) \<noteq> CHR ''.''"
  shows "restored (chunk_body this f st) = restored st @ f @ ''.''"
    and "currentChunk (chunk_body this f st) = []
         \<or> last (currentChunk (chunk_body this f st)) \<noteq> CHR ''.''"
proof -
  from f have lf: "last f \<noteq> CHR ''.''"
    using last_in_set by metis
  have join: "unseparate (currentChunk st @ ''. '' @ f) = unseparate (currentChunk st) @ ''.'' @ f"
    using inv f by (simp add: unseparate_append unseparate_no_stop)
  show "restored (chunk_body this f st) = restored st @ f @ ''.''"
    using f join
    by (simp add: chunk_body_def Let_def restored_def reconstruct_snoc unseparate_no_stop)
  show "currentChunk (chunk_body this f st) = []
         \<or> last (currentChunk (chunk_body this f st)) \<noteq> CHR ''.''"
    using f lf by (simp add: chunk_body_def Let_def)
qed

lemma chunk_loop_restored:
  assumes "\<forall>f \<in> set fragments. f \<noteq> [] \<and> CHR ''.'' \<notin> set f"
    and "currentChunk st = [] \<or> last (currentChunk st) \<noteq> CHR ''.''"
  shows "restored (chunk_loop this (delimited fragments) st) = restored st @ delimited fragments"
  using assms
proof (induction fragments arbitrary: st)
  case Nil
  then show ?case by (simp add: delimited_def chunk_loop_Nil)
next
  case (Cons f fragments)
  from Cons.prems have f: "f \<noteq> []" "CHR ''.'' \<notin> set f" by simp_all
  have step: "chunk_loop this (delimited (f # fragments)) st
      = chunk_loop this (delimited fragments) (chunk_body this f st)"
    using chunk_loop_fragment [OF f(2), of this "delimited fragments" st]
    by (simp add: delimited_def)
  have "restored (chunk_loop this (delimited fragments) (chunk_body this f st))
      = restored (chunk_body this f st) @ delimited fragments"
    using Cons.prems chunk_body_restored(2) [OF f Cons.prems(2)]
    by (intro Cons.IH) simp_all
  then have "restored (chunk_loop this (delimited (f # fragments)) st)
      = restored (chunk_body this f st) @ delimited fragments"
    by (simp only: step)
  also have "\<dots> = (restored st @ f @ ''.'') @ delimited fragments"
    by (simp only: chunk_body_restored(1) [OF f Cons.prems(2)])
  also have "\<dots> = restored st @ delimited (f # fragments)"
    by (simp add: delimited_def)
  finally show ?case .
qed

lemma reconstruct_chunk:
  "reconstruct (chunk this text)
     = restored (chunk_loop this text \<lparr>chunks = [], currentChunk = []\<rparr>)"
  by (simp add: chunk_def Let_def restored_def reconstruct_snoc)

subsection \<open>Counting words\<close>

text \<open>The run beginnings by index are the run beginnings counted along the list.\<close>

lemma run_starts_aux:
  "length (filter (\<lambda>i. \<not> ws (s ! i) \<and> (if i = 0 then prev else ws (s ! (i - 1))))
             [0..<length s])
   = runs_from ws prev s"
proof (induction s arbitrary: prev)
  case Nil
  show ?case by simp
next
  case (Cons c s)
  define P where
    "P = (\<lambda>i. \<not> ws ((c # s) ! i) \<and> (if i = 0 then prev else ws ((c # s) ! (i - 1))))"
  define Q where
    "Q = (\<lambda>i. \<not> ws (s ! i) \<and> (if i = 0 then ws c else ws (s ! (i - 1))))"
  have upt: "[0..<length (c # s)] = 0 # map Suc [0..<length s]"
    by (simp add: upt_conv_Cons map_Suc_upt del: upt_Suc)
  have shift: "P \<circ> Suc = Q"
    by (auto simp: P_def Q_def fun_eq_iff nth_Cons')
  have first: "P 0 \<longleftrightarrow> \<not> ws c \<and> prev"
    by (simp add: P_def)
  have "length (filter P (0 # map Suc [0..<length s]))
      = (if P 0 then 1 else 0) + length (filter (P \<circ> Suc) [0..<length s])"
    by (simp add: filter_map)
  also have "length (filter (P \<circ> Suc) [0..<length s]) = runs_from ws (ws c) s"
    unfolding shift Q_def by (rule Cons.IH)
  finally have "length (filter P [0..<length (c # s)]) = runs_from ws prev (c # s)"
    unfolding upt by (simp add: first)
  then show ?case
    unfolding P_def .
qed

lemma count_runs_runs_from: "count_runs ws s = int (runs_from ws True s)"
proof -
  have "(\<lambda>i. \<not> ws (s ! i) \<and> (i = 0 \<or> ws (s ! (i - 1))))
      = (\<lambda>i. \<not> ws (s ! i) \<and> (if i = 0 then True else ws (s ! (i - 1))))"
    by (auto simp: fun_eq_iff)
  then show ?thesis
    by (simp only: count_runs_def run_starts_def run_starts_aux)
qed

lemma word_count_loop_runs:
  "word_count_loop s in_word wc = wc + of_nat (runs_from space_tab_newline (\<not> in_word) s)"
  by (induction s arbitrary: in_word wc) (auto simp: space_tab_newline_def)

lemma runs_from_skip_ws: "runs_from ws True (dropWhile ws s) = runs_from ws True s"
  by (induction s) auto

lemma runs_from_in_word:
  "runs_from ws False s = runs_from ws True (dropWhile (\<lambda>c. \<not> ws c) s)"
  by (induction s) auto

lemma countWords_loop_runs:
  "countWords_loop stream count = count + of_nat (runs_from isspace True stream)"
proof (induction stream count rule: countWords_loop.induct)
  case (1 stream count)
  define s where "s = dropWhile isspace stream"
  show ?case
  proof (cases "s = []")
    case True
    then have "extract_word stream = None"
      by (simp add: extract_word_def s_def)
    moreover have "runs_from isspace True stream = 0"
    proof -
      have "runs_from isspace True stream = runs_from isspace True s"
        unfolding s_def by (rule runs_from_skip_ws [symmetric])
      with True show ?thesis by simp
    qed
    ultimately show ?thesis
      by (simp add: countWords_loop.simps [of stream])
  next
    case False
    define rest where "rest = dropWhile (\<lambda>c. \<not> isspace c) s"
    define w where "w = takeWhile (\<lambda>c. \<not> isspace c) s"
    from False have ex: "extract_word stream = Some (w, rest)"
      by (simp add: extract_word_def s_def rest_def w_def Let_def)
    from False have "\<not> isspace (hd s)"
      unfolding s_def by (rule hd_dropWhile)
    with False have "runs_from isspace True s = 1 + runs_from isspace False (tl s)"
      and "rest = dropWhile (\<lambda>c. \<not> isspace c) (tl s)"
      unfolding rest_def by (cases s; simp)+
    then have "runs_from isspace True s = 1 + runs_from isspace True rest"
      by (simp add: runs_from_in_word)
    moreover have "runs_from isspace True stream = runs_from isspace True s"
      unfolding s_def by (rule runs_from_skip_ws [symmetric])
    ultimately have runs: "runs_from isspace True stream = 1 + runs_from isspace True rest"
      by simp
    have "countWords_loop rest (count + 1) = count + 1 + of_nat (runs_from isspace True rest)"
      by (rule "1.IH" [OF ex refl])
    with ex runs show ?thesis
      by (simp add: countWords_loop.simps [of stream])
  qed
qed


lemma runs_from_le_length: "runs_from ws prev s \<le> length s"
proof (induction s arbitrary: prev)
  case Nil
  show ?case by simp
next
  case (Cons c s)
  have "runs_from ws (ws c) s \<le> length s" by (rule Cons.IH)
  then show ?case by auto
qed

text \<open>
  Both loops count the maximal runs, each for its own whitespace. The count never exceeds
  the length of the content, so on a content shorter than \<open>2^31\<close> bytes the \<^verbatim>\<open>int\<close>
  counters stay in range and hold the number of runs.
\<close>

lemma sint_int32_of_nat:
  assumes "n < 2 ^ 31"
  shows "sint (of_nat n :: int32) = int n"
proof -
  from assms have "int n < 2 ^ 31"
    by (metis of_nat_less_iff of_nat_numeral of_nat_power)
  then have "signed_take_bit 31 (int n) = int n"
    by (simp add: signed_take_bit_int_eq_self)
  moreover have "sint (of_nat n :: int32) = signed_take_bit (LENGTH(32) - Suc 0) (int n)"
    by (simp only: signed_of_nat of_int_eq_id id_apply)
  ultimately show ?thesis
    by simp
qed

lemma runs_from_small:
  assumes "length s < 2 ^ 31"
  shows "runs_from ws prev s < 2 ^ 31"
  using runs_from_le_length [of ws prev s] assms by (rule le_less_trans)

lemma countWords_count_runs:
  assumes "length s < 2 ^ 31"
  shows "sint (countWords s) = count_runs isspace s"
  using sint_int32_of_nat [OF runs_from_small [OF assms, of isspace True]]
  by (simp add: countWords_def countWords_loop_runs count_runs_runs_from)

lemma word_count_loop_count_runs:
  assumes "length s < 2 ^ 31"
  shows "sint (word_count_loop s False 0) = count_runs space_tab_newline s"
  using sint_int32_of_nat [OF runs_from_small [OF assms, of space_tab_newline True]]
  by (simp add: word_count_loop_runs count_runs_runs_from)

lemma count_runs_le_length: "count_runs ws s \<le> int (length s)"
  by (simp add: count_runs_runs_from runs_from_le_length)


subsection \<open>The C chunking loop on a text without delimiters\<close>

text \<open>
  \<^verbatim>\<open>chunk_text\<close> looks for a \<open>.\<close> or a newline. Where the text holds neither, every
  chunk but the last has exactly \<^verbatim>\<open>chunk_size\<close> characters, and the estimated number of
  chunks is enough.
\<close>

lemma cut_by_length_Nil: "cut_by_length n [] = []"
  by (simp add: cut_by_length.simps [of n "[]"])

lemma cut_by_length_Cons:
  assumes "xs \<noteq> []" and "0 < n"
  shows "cut_by_length n xs = take n xs # cut_by_length n (drop n xs)"
  using assms by (simp add: cut_by_length.simps [of n xs])

lemma cut_by_length_empty_iff:
  assumes "0 < n"
  shows "cut_by_length n xs = [] \<longleftrightarrow> xs = []"
  using assms by (cases "xs = []") (simp_all add: cut_by_length_Nil cut_by_length_Cons)

lemma cut_by_length_single:
  assumes "xs \<noteq> []" and "0 < n"
  shows "cut_by_length n xs = [xs] \<longleftrightarrow> length xs \<le> n"
  using assms
  by (auto simp: cut_by_length_Cons cut_by_length_empty_iff)

lemma length_cut_by_length:
  assumes "0 < n"
  shows "length (cut_by_length n xs) \<le> length xs div n + 1"
  using assms
proof (induction xs rule: length_induct)
  case (1 xs)
  show ?case
  proof (cases "xs = []")
    case True
    then show ?thesis by (simp add: cut_by_length_Nil)
  next
    case False
    show ?thesis
    proof (cases "length xs < n")
      case True
      then have "drop n xs = []" by simp
      with False "1.prems" show ?thesis
        by (simp add: cut_by_length_Cons cut_by_length_Nil)
    next
      case ge: False
      with "1.prems" False have "length (drop n xs) < length xs" by simp
      with "1.IH" "1.prems"
      have "length (cut_by_length n (drop n xs)) \<le> length (drop n xs) div n + 1"
        by blast
      moreover have "length (drop n xs) div n + 1 = length xs div n"
        using ge "1.prems" by (simp add: le_div_geq)
      ultimately show ?thesis
        using False "1.prems" by (simp add: cut_by_length_Cons)
    qed
  qed
qed

lemma c_at_plain:
  assumes "CHR ''.'' \<notin> set start" and "CHR 0x0A \<notin> set start"
  shows "c_at start i \<noteq> CHR ''.'' \<and> c_at start i \<noteq> CHR 0x0A"
  using assms by (auto simp: c_at_def in_set_conv_nth)

lemma find_boundary_plain:
  assumes "CHR ''.'' \<notin> set start" and "CHR 0x0A \<notin> set start"
  shows "find_boundary start len = 0"
proof (induction len)
  case 0
  show ?case by (simp add: find_boundary.simps [of start 0])
next
  case (Suc len)
  with c_at_plain [OF assms, of "Suc len"] show ?case
    by (simp add: find_boundary.simps [of start "Suc len"])
qed

lemma size_t_less_int32:
  fixes chunk_size :: int32
  assumes "0 < sint chunk_size" and "n < 2 ^ 31"
  shows "(of_nat n :: size_t) < scast chunk_size \<longleftrightarrow> n < nat (sint chunk_size)"
proof -
  from assms(1) have spos: "0 <s chunk_size" by (simp add: word_sless_alt)
  show ?thesis
    by (simp add: word_less_nat_alt unat_size_t_of_nat [OF assms(2)]
        unat_scast_positive [OF spos])
qed

lemma chunk_len_plain:
  fixes chunk_size :: int32
  assumes "CHR ''.'' \<notin> set start" and "CHR 0x0A \<notin> set start"
    and "0 < sint chunk_size" and "length start < 2 ^ 31"
  shows "chunk_len chunk_size start = min (nat (sint chunk_size)) (length start)"
  using assms(3)
  by (auto simp: chunk_len_def size_t_less_int32 [OF assms(3,4)]
      find_boundary_plain [OF assms(1,2)])

lemma chunk_text_loop_plain:
  fixes chunk_size :: int32
  assumes "CHR ''.'' \<notin> set start" and "CHR 0x0A \<notin> set start"
    and "0 < sint chunk_size" and "length start < 2 ^ 31"
    and "length chunk_array + length (cut_by_length (nat (sint chunk_size)) start) \<le> estimated"
  shows "chunk_text_loop chunk_size estimated start chunk_array
         = Some (chunk_array @ cut_by_length (nat (sint chunk_size)) start)"
  using assms
proof (induction start arbitrary: chunk_array rule: length_induct)
  case (1 start)
  let ?n = "nat (sint chunk_size)"
  from "1.prems"(3) have n: "0 < ?n" by simp
  show ?case
  proof (cases "start = []")
    case True
    then show ?thesis
      by (simp add: chunk_text_loop.simps [of _ _ "[]"] cut_by_length_Nil)
  next
    case False
    have cut: "cut_by_length ?n start = take ?n start # cut_by_length ?n (drop ?n start)"
      using False n by (rule cut_by_length_Cons)
    with "1.prems"(5) have room: "\<not> estimated \<le> length chunk_array"
      by simp
    have len: "chunk_len chunk_size start = min ?n (length start)"
      by (rule chunk_len_plain) (use "1.prems" in simp_all)
    have tk: "take (min ?n (length start)) start = take ?n start"
      and dr: "drop (min ?n (length start)) start = drop ?n start"
      by (simp_all add: min_def)
    have shorter: "length (drop ?n start) < length start"
      using False n by simp
    have "chunk_text_loop chunk_size estimated (drop ?n start) (chunk_array @ [take ?n start])
        = Some ((chunk_array @ [take ?n start]) @ cut_by_length ?n (drop ?n start))"
    proof (rule "1.IH" [rule_format, OF shorter])
      show "CHR ''.'' \<notin> set (drop ?n start)"
        using "1.prems"(1) by (auto dest: in_set_dropD)
      show "CHR 0x0A \<notin> set (drop ?n start)"
        using "1.prems"(2) by (auto dest: in_set_dropD)
      show "0 < sint chunk_size" by (rule "1.prems"(3))
      show "length (drop ?n start) < 2 ^ 31"
        using shorter "1.prems"(4) by simp
      show "length (chunk_array @ [take ?n start])
              + length (cut_by_length ?n (drop ?n start)) \<le> estimated"
        using "1.prems"(5) cut by simp
    qed
    then have "chunk_text_loop chunk_size estimated start chunk_array
        = Some (chunk_array @ take ?n start # cut_by_length ?n (drop ?n start))"
      using False room
      by (simp add: chunk_text_loop.simps [of _ _ start] len tk dr Let_def)
    then show ?thesis
      by (simp only: cut)
  qed
qed

lemma estimated_chunks_plain:
  fixes chunk_size :: int32
  assumes "0 < sint chunk_size" and "length s < 2 ^ 31 - 1"
  shows "unat ((of_nat (length s) :: size_t) div scast chunk_size + 1)
         = length s div nat (sint chunk_size) + 1"
proof -
  from assms(1) have spos: "0 <s chunk_size" by (simp add: word_sless_alt)
  from assms(2) have l: "length s < 2 ^ 31" by simp
  have d: "unat ((of_nat (length s) :: size_t) div scast chunk_size)
      = length s div nat (sint chunk_size)"
    by (simp add: unat_div unat_size_t_of_nat [OF l] unat_scast_positive [OF spos])
  have "length s div nat (sint chunk_size) \<le> length s"
    by (rule div_le_dividend)
  from this l have "length s div nat (sint chunk_size) < 2 ^ 31"
    by (rule le_less_trans)
  then have "length s div nat (sint chunk_size) + 1 < 2 ^ 64"
    by simp
  then have "unat ((of_nat (length s) :: size_t) div scast chunk_size)
               + unat (1 :: size_t) < 2 ^ LENGTH(64)"
    by (simp add: d)
  then have "unat ((of_nat (length s) :: size_t) div scast chunk_size + 1)
      = unat ((of_nat (length s) :: size_t) div scast chunk_size) + unat (1 :: size_t)"
    by (simp only: unat_add_lem)
  then show ?thesis by (simp add: d)
qed

lemma chunk_text_plain:
  fixes chunk_size :: int32
  assumes "CHR ''.'' \<notin> set s" and "CHR 0x0A \<notin> set s"
    and "0 < sint chunk_size" and "length s < 2 ^ 31 - 1"
  shows "chunk_text s chunk_size = Some (cut_by_length (nat (sint chunk_size)) s)"
proof -
  from assms(3) have nz: "chunk_size \<noteq> 0" by auto
  from assms(3) have n: "0 < nat (sint chunk_size)" by simp
  from assms(4) have l: "length s < 2 ^ 31" by simp
  from assms(4) have "int (length s) < int (2 ^ 31 - 1)"
    by (simp only: of_nat_less_iff)
  then have il: "\<not> (2 ^ 31 - 1 :: int) \<le> int (length s)"
    by simp
  have "chunk_text_loop chunk_size (length s div nat (sint chunk_size) + 1) s []
      = Some ([] @ cut_by_length (nat (sint chunk_size)) s)"
    by (rule chunk_text_loop_plain [OF assms(1-3) l])
       (use length_cut_by_length [OF n, of s] in simp)
  with nz il show ?thesis
    by (simp add: chunk_text_def Let_def estimated_chunks_plain [OF assms(3,4)])
qed

section \<open>Document construction\<close>

text \<open>
  C4. Constructing a Document from the empty content fails for every source: the C++
  constructor throws \<^verbatim>\<open>std::invalid_argument\<close>, the C function returns \<^verbatim>\<open>NULL\<close> (also for
  a null content). No trimming is applied and no Document is produced.
\<close>

theorem create_empty_content_fails:
  "Document_new [] src = Inl InvalidArgument
   \<and> document_create (Some []) src = None
   \<and> document_create None src = None"
  by (simp add: Document_new_def document_create_def)

section \<open>Chunker configuration\<close>

text \<open>
  C5, as stated, fails: the constructor of \<^verbatim>\<open>TextChunker\<close> accepts a non-positive chunk
  size. Here it is called with 0 and with -5.
\<close>

theorem TextChunker_nonpositive_accepted:
  "sint (0 :: int32) \<le> 0 \<and> TextChunker_new 0 = Inr \<lparr>chunkSize' = 0\<rparr>
   \<and> sint (- 5 :: int32) \<le> 0 \<and> TextChunker_new (- 5) = Inr \<lparr>chunkSize' = - 5\<rparr>"
  by (simp add: TextChunker_new_def)

text \<open>
  C5, amended. Constructing a \<^verbatim>\<open>TextChunker\<close> never fails: every chunk size, positive or
  not, is accepted and stored unchanged, and no \<^verbatim>\<open>InvalidArgument\<close> is raised.
\<close>

theorem TextChunker_new_total:
  "TextChunker_new chunkSize \<noteq> Inl InvalidArgument
   \<and> (\<exists>tc. TextChunker_new chunkSize = Inr tc \<and> chunkSize' tc = chunkSize)"
  by (simp add: TextChunker_new_def)

text \<open>
  What a stored non-positive size does to \<^verbatim>\<open>chunk\<close>: with 0 every fragment is flushed
  before the next one is added; a negative size is a huge \<^verbatim>\<open>size_t\<close> in the comparison,
  so nothing is ever flushed.
\<close>

lemma chunk_nonpositive_sizes:
  "chunk \<lparr>chunkSize' = 0\<rparr> ''Short. Tiny.'' = [''Short'', '' Tiny'']"
  "chunk \<lparr>chunkSize' = - 1\<rparr> ''Short. Tiny.'' = [''Short.  Tiny'']"
  by (simp_all add: chunk_def chunk_loop.simps chunk_body_def getline_def)

section \<open>Chunking: examples and edge cases\<close>

text \<open>
  C2, as stated, fails: the three chunks of the example text for chunk size 20 are not
  the sentences with their full stops.
\<close>

theorem chunk_example_not_with_stops:
  "chunk \<lparr>chunkSize' = 20\<rparr> ''A short sentence. Another one here. And a third.''
     \<noteq> [''A short sentence.'', ''Another one here.'', ''And a third.'']"
  by (simp add: chunk_def chunk_loop.simps chunk_body_def getline_def)

text \<open>
  C2, amended. Chunking the example text with chunk size 20 yields exactly three chunks,
  in document order: the delimiter \<open>.\<close> is consumed, and the space that followed it
  stays at the front of the next chunk.
\<close>

theorem chunk_example:
  "chunk \<lparr>chunkSize' = 20\<rparr> ''A short sentence. Another one here. And a third.''
     = [''A short sentence'', '' Another one here'', '' And a third'']"
  by (simp add: chunk_def chunk_loop.simps chunk_body_def getline_def)

text \<open>
  C8. For every chunk size, chunking the empty string returns the empty sequence: zero
  chunks, not one empty chunk.
\<close>

theorem chunk_empty_text: "chunk this [] = []"
  by (simp add: chunk_def chunk_loop_Nil)

text \<open>
  C7, as stated, fails for the C function: \<^verbatim>\<open>chunk_text\<close> cuts a text without any
  delimiter by length, here a text of six characters into two chunks of three.
\<close>

theorem chunk_text_cuts_by_length:
  "''abcdef'' \<noteq> [] \<and> CHR ''.'' \<notin> set ''abcdef'' \<and> 0 < sint (3 :: int32)
   \<and> chunk_text ''abcdef'' 3 = Some [''abc'', ''def'']"
  by (simp add: chunk_text_def chunk_text_loop.simps chunk_len_def find_boundary.simps
      c_at_def)

text \<open>
  C7, amended. For every non-empty text without a \<open>.\<close> and every chunk size,
  \<^verbatim>\<open>TextChunker::chunk\<close> returns exactly one chunk, equal to the text, however long the
  text is. The C function \<^verbatim>\<open>chunk_text\<close>, whose delimiters are \<open>.\<close> and newline, cuts a
  non-empty text without either (and shorter than \<open>2^31 - 1\<close> bytes) by length for every
  positive \<^verbatim>\<open>chunk_size\<close>: it returns the text as its single chunk exactly when the text
  has at most \<^verbatim>\<open>chunk_size\<close> characters.
\<close>

theorem chunk_no_delimiter:
  "(text \<noteq> [] \<and> CHR ''.'' \<notin> set text \<longrightarrow> chunk this text = [text])
   \<and> (text \<noteq> [] \<and> CHR ''.'' \<notin> set text \<and> CHR 0x0A \<notin> set text
        \<and> 0 < sint chunk_size \<and> length text < 2 ^ 31 - 1
        \<longrightarrow> chunk_text text chunk_size = Some (cut_by_length (nat (sint chunk_size)) text)
            \<and> (chunk_text text chunk_size = Some [text]
                 \<longleftrightarrow> length text \<le> nat (sint chunk_size)))"
proof (intro conjI impI)
  assume a: "text \<noteq> [] \<and> CHR ''.'' \<notin> set text"
  then have tw: "takeWhile (\<lambda>c. c \<noteq> CHR ''.'') text = text"
    and dw: "dropWhile (\<lambda>c. c \<noteq> CHR ''.'') text = []"
    by auto
  from a have "chunk_loop this text \<lparr>chunks = [], currentChunk = []\<rparr>
      = \<lparr>chunks = [], currentChunk = text\<rparr>"
    by (simp add: chunk_loop_step tw dw chunk_loop_Nil chunk_body_first)
  with a show "chunk this text = [text]"
    by (simp add: chunk_def)
next
  assume a: "text \<noteq> [] \<and> CHR ''.'' \<notin> set text \<and> CHR 0x0A \<notin> set text
      \<and> 0 < sint chunk_size \<and> length text < 2 ^ 31 - 1"
  then have cut: "chunk_text text chunk_size = Some (cut_by_length (nat (sint chunk_size)) text)"
    by (intro chunk_text_plain) simp_all
  then show "chunk_text text chunk_size = Some (cut_by_length (nat (sint chunk_size)) text)" .
  from a have "cut_by_length (nat (sint chunk_size)) text = [text]
      \<longleftrightarrow> length text \<le> nat (sint chunk_size)"
    by (intro cut_by_length_single) simp_all
  with cut show "chunk_text text chunk_size = Some [text]
      \<longleftrightarrow> length text \<le> nat (sint chunk_size)"
    by simp
qed

theorem chunk_no_delimiter_witness:
  "(''abcdef'' \<noteq> [] \<and> CHR ''.'' \<notin> set ''abcdef'')
   \<and> chunk \<lparr>chunkSize' = 3\<rparr> ''abcdef'' = [''abcdef'']
   \<and> (CHR 0x0A \<notin> set ''abcdef'' \<and> 0 < sint (6 :: int32) \<and> length ''abcdef'' < 2 ^ 31 - 1)
   \<and> cut_by_length (nat (sint (6 :: int32))) ''abcdef'' = [''abcdef'']
   \<and> chunk_text ''abcdef'' 6 = Some [''abcdef'']
   \<and> length ''abcdef'' \<le> nat (sint (6 :: int32))"
  using chunk_no_delimiter [of "''abcdef''" "\<lparr>chunkSize' = 3\<rparr>" 6]
  by (simp add: cut_by_length.simps)

section \<open>Parser dispatch\<close>

text \<open>
  C9. With a registry that holds only the plain-text parser, dispatching
  \<^verbatim>\<open>text/markdown\<close> fails with \<^verbatim>\<open>UnsupportedMediaType\<close>: \<^verbatim>\<open>TextParser::supports\<close> is true
  for \<^verbatim>\<open>text/plain\<close> only, and dispatch fails whenever no registered parser supports
  the MIME type.
\<close>

theorem dispatch_unsupported:
  "dispatch [TextParser] ''text/markdown'' = Inl UnsupportedMediaType
   \<and> (supports TextParser mimeType \<longleftrightarrow> mimeType = ''text/plain'')
   \<and> ((\<forall>p \<in> set registry. \<not> supports p mimeType)
        \<longrightarrow> dispatch registry mimeType = Inl UnsupportedMediaType)"
proof (intro conjI impI)
  show "dispatch [TextParser] ''text/markdown'' = Inl UnsupportedMediaType"
    by (simp add: TextParser_def)
  show "supports TextParser mimeType \<longleftrightarrow> mimeType = ''text/plain''"
    by (simp add: TextParser_def)
  assume "\<forall>p \<in> set registry. \<not> supports p mimeType"
  then show "dispatch registry mimeType = Inl UnsupportedMediaType"
    by (induction registry) simp_all
qed

theorem dispatch_unsupported_witness:
  "\<not> supports TextParser ''text/markdown''
   \<and> dispatch [TextParser] ''text/markdown'' = Inl UnsupportedMediaType"
  using dispatch_unsupported [of "''text/markdown''" "[TextParser]"]
  by (simp add: TextParser_def)

section \<open>Chunking: invariants\<close>

text \<open>
  C10. For every input text and every configured chunk size, every chunk returned by
  \<^verbatim>\<open>TextChunker::chunk\<close> is a non-empty string.
\<close>

theorem chunk_elements_nonempty:
  "\<forall>c \<in> set (chunk this text). c \<noteq> []"
proof -
  define st where "st = chunk_loop this text \<lparr>chunks = [], currentChunk = []\<rparr>"
  have "[] \<notin> set (chunks st)"
    unfolding st_def by (rule chunk_loop_chunks_nonempty) simp
  then have "[] \<notin> set (chunk this text)"
    by (simp add: chunk_def st_def [symmetric] Let_def)
  then show ?thesis by metis
qed

theorem chunk_elements_nonempty_witness:
  "''a. b'' \<in> set (chunk \<lparr>chunkSize' = 100\<rparr> ''a..b.'') \<and> ''a. b'' \<noteq> []"
  using chunk_elements_nonempty [of "\<lparr>chunkSize' = 100\<rparr>" "''a..b.''"]
  by (simp add: chunk_def chunk_loop.simps chunk_body_def getline_def)

text \<open>
  C1, as stated, fails: a text may hold an empty fragment (two delimiters in a row).
  The chunker discards it, so the text \<^verbatim>\<open>a..b.\<close> yields the chunks of \<^verbatim>\<open>a.b.\<close>, and
  what the chunks reconstruct to is \<^verbatim>\<open>a.b.\<close>.
\<close>

theorem chunk_loses_empty_fragment:
  "CHR ''.'' \<notin> set ''a'' \<and> CHR ''.'' \<notin> set [] \<and> CHR ''.'' \<notin> set ''b''
   \<and> 0 < sint (100 :: int32)
   \<and> delimited [''a'', [], ''b''] = ''a..b.''
   \<and> chunk \<lparr>chunkSize' = 100\<rparr> ''a..b.'' = chunk \<lparr>chunkSize' = 100\<rparr> ''a.b.''
   \<and> reconstruct (chunk \<lparr>chunkSize' = 100\<rparr> ''a..b.'') = ''a.b.''
   \<and> reconstruct (chunk \<lparr>chunkSize' = 100\<rparr> ''a..b.'') \<noteq> ''a..b.''"
  by (simp add: delimited_def reconstruct_def chunk_def chunk_loop.simps chunk_body_def
      getline_def)

text \<open>
  C1, amended. Let the text consist of \<open>.\<close>-delimited fragments, each of them non-empty,
  with nothing after the last \<open>.\<close>. Then for every chunk size the chunks, taken in
  order, with the inserted separators removed and the delimiters restored, concatenate
  to the text: no fragment is lost, repeated or reordered.
\<close>

theorem chunk_reconstructs_text:
  assumes "\<forall>f \<in> set fragments. f \<noteq> [] \<and> CHR ''.'' \<notin> set f"
  shows "reconstruct (chunk this (delimited fragments)) = delimited fragments"
proof -
  let ?init = "\<lparr>chunks = [], currentChunk = []\<rparr>"
  have "restored (chunk_loop this (delimited fragments) ?init)
      = restored ?init @ delimited fragments"
    by (rule chunk_loop_restored [OF assms]) simp
  moreover have "restored ?init = []"
    by (simp add: restored_def reconstruct_def)
  ultimately show ?thesis
    by (simp add: reconstruct_chunk)
qed

theorem chunk_reconstructs_text_witness:
  "(''Short'' \<noteq> [] \<and> CHR ''.'' \<notin> set ''Short'')
   \<and> ('' Tiny'' \<noteq> [] \<and> CHR ''.'' \<notin> set '' Tiny'')
   \<and> delimited [''Short'', '' Tiny''] = ''Short. Tiny.''
   \<and> reconstruct (chunk \<lparr>chunkSize' = 100\<rparr> (delimited [''Short'', '' Tiny'']))
       = ''Short. Tiny.''"
  using chunk_reconstructs_text [of "[''Short'', '' Tiny'']" "\<lparr>chunkSize' = 100\<rparr>"]
  by (simp add: delimited_def)

section \<open>Word counts\<close>

text \<open>
  C3, as stated, fails for the C++ class: the stream extraction of \<^verbatim>\<open>countWords\<close> treats
  a carriage return as whitespace. The content \<^verbatim>\<open>a\rb\<close> is one run for the whitespace
  space, tab, newline, and the Document constructed from it has \<^verbatim>\<open>wordCount\<close> 2.
\<close>

theorem countWords_carriage_return:
  "[CHR ''a'', CHR 0x0D, CHR ''b''] \<noteq> []
   \<and> Document_new [CHR ''a'', CHR 0x0D, CHR ''b''] ''f''
       = Inr \<lparr>content' = [CHR ''a'', CHR 0x0D, CHR ''b''], source' = ''f'', wordCount' = 2\<rparr>
   \<and> sint (2 :: int32) = 2
   \<and> count_runs space_tab_newline [CHR ''a'', CHR 0x0D, CHR ''b''] = 1"
  by (simp add: Document_new_def countWords_def countWords_loop.simps extract_word_def
      isspace_def count_runs_def run_starts_def space_tab_newline_def upt_rec)

text \<open>
  C3, amended. For every non-empty content shorter than \<open>2^31\<close> bytes the construction
  succeeds and the word count of the Document equals the number of maximal runs of
  non-whitespace characters of the content, where whitespace is, for the C++ class
  \<^verbatim>\<open>Document\<close>, the six characters of \<^verbatim>\<open>std::isspace\<close> in the classic locale (space, tab,
  newline, vertical tab, form feed, carriage return) and, for the C function
  \<^verbatim>\<open>document_create\<close>, exactly space, tab and newline.
\<close>

theorem wordCount_counts_runs:
  "(s \<noteq> [] \<and> length s < 2 ^ 31 \<longrightarrow>
      (\<exists>d. Document_new s src = Inr d \<and> content' d = s \<and> source' d = src
           \<and> sint (wordCount' d) = count_runs isspace s))
   \<and> (s \<noteq> [] \<and> length s < 2 ^ 31 \<longrightarrow>
      (\<exists>dc. document_create (Some s) src = Some dc \<and> content dc = s \<and> source dc = src
           \<and> sint (word_count dc) = count_runs space_tab_newline s))"
  by (simp add: Document_new_def document_create_def countWords_count_runs
      word_count_loop_count_runs)

theorem wordCount_counts_runs_witness:
  "[CHR ''a'', CHR 0x0D, CHR ''b''] \<noteq> [] \<and> length [CHR ''a'', CHR 0x0D, CHR ''b''] < 2 ^ 31
   \<and> Document_new [CHR ''a'', CHR 0x0D, CHR ''b''] ''f''
       = Inr \<lparr>content' = [CHR ''a'', CHR 0x0D, CHR ''b''], source' = ''f'', wordCount' = 2\<rparr>
   \<and> sint (2 :: int32) = count_runs isspace [CHR ''a'', CHR 0x0D, CHR ''b'']
   \<and> document_create (Some [CHR ''a'', CHR 0x0D, CHR ''b'']) ''f''
       = Some \<lparr>content = [CHR ''a'', CHR 0x0D, CHR ''b''], source = ''f'', word_count = 1\<rparr>
   \<and> sint (1 :: int32) = count_runs space_tab_newline [CHR ''a'', CHR 0x0D, CHR ''b'']"
proof -
  have cpp: "Document_new [CHR ''a'', CHR 0x0D, CHR ''b''] ''f''
      = Inr \<lparr>content' = [CHR ''a'', CHR 0x0D, CHR ''b''], source' = ''f'', wordCount' = 2\<rparr>"
    by (simp add: Document_new_def countWords_def countWords_loop.simps extract_word_def
        isspace_def)
  have c: "document_create (Some [CHR ''a'', CHR 0x0D, CHR ''b'']) ''f''
      = Some \<lparr>content = [CHR ''a'', CHR 0x0D, CHR ''b''], source = ''f'', word_count = 1\<rparr>"
    by (simp add: document_create_def)
  from wordCount_counts_runs [of "[CHR ''a'', CHR 0x0D, CHR ''b'']" "''f''"] cpp c
  show ?thesis by simp
qed




end
